theory Spec2Isabelle
  imports Main
begin

section \<open>Python values and exceptions\<close>

text \<open>
  The script \<^verbatim>\<open>notify-matrix-join.py\<close> talks to a Matrix homeserver over HTTP and to a
  mail server over SMTP. Everything it decides is decided on values that \<^verbatim>\<open>json.loads\<close>
  returns and on the strings of the event it handles, so the model starts with those values.

  A \<open>json\<close> is the Python object \<^verbatim>\<open>json.loads\<close> builds: \<open>JNull\<close> is \<^verbatim>\<open>None\<close>, \<open>JArr\<close> a list,
  \<open>JObj\<close> a dict given by its items (looked up with \<open>map_of\<close>), \<open>JNum\<close> a number (a number
  is neither subscriptable nor iterable, so integers stand for all of them).
\<close>

datatype json =
    JNull
  | JBool bool
  | JNum int
  | JStr string
  | JArr "json list"
  | JObj "(string \<times> json) list"

text \<open>
  An \<open>exn\<close> is an instance of a subclass of Python's \<^verbatim>\<open>Exception\<close>, the class that the
  \<^verbatim>\<open>except Exception\<close> clauses of the script catch.
\<close>

datatype exn =
    KeyError string
  | TypeError
  | JSONDecodeError
  | ConnectionError
  | SMTPException
  | OtherException string

text \<open>\<^verbatim>\<open>v[k]\<close> for a string key \<open>k\<close>: only a dict can be subscripted by a string.\<close>

fun subscript :: "json \<Rightarrow> string \<Rightarrow> exn + json" where
  "subscript (JObj kvs) k = (case map_of kvs k of None \<Rightarrow> Inl (KeyError k) | Some v \<Rightarrow> Inr v)"
| "subscript _ k = Inl TypeError"

text \<open>
  \<^verbatim>\<open>for x in v\<close>: a list yields its elements, a dict its keys, a string its characters
  (strings of length one); nothing else is iterable.
\<close>

fun py_iter :: "json \<Rightarrow> exn + json list" where
  "py_iter (JArr xs) = Inr xs"
| "py_iter (JObj kvs) = Inr (map (\<lambda>kv. JStr (fst kv)) kvs)"
| "py_iter (JStr s) = Inr (map (\<lambda>c. JStr [c]) s)"
| "py_iter _ = Inl TypeError"

text \<open>
  \<^verbatim>\<open>s == v\<close> for a Python string \<open>s\<close>: true exactly when \<open>v\<close> is the same string.
  \<^verbatim>\<open>v in strs\<close> and \<^verbatim>\<open>s in vs\<close> test the elements of a list with \<^verbatim>\<open>==\<close>.
\<close>

definition str_eq :: "string \<Rightarrow> json \<Rightarrow> bool" where
  "str_eq s v = (v = JStr s)"

definition in_strs :: "json \<Rightarrow> string list \<Rightarrow> bool" where
  "in_strs v strs = list_ex (\<lambda>s. str_eq s v) strs"

definition str_in :: "string \<Rightarrow> json list \<Rightarrow> bool" where
  "str_in s vs = list_ex (str_eq s) vs"

text \<open>
  \<^verbatim>\<open>exclude_room == room_id\<close>, where \<^verbatim>\<open>exclude_room\<close> is \<^verbatim>\<open>None\<close> (the default of the
  parameter) or a string.
\<close>

fun opt_str_eq :: "string option \<Rightarrow> json \<Rightarrow> bool" where
  "opt_str_eq None v = (v = JNull)"
| "opt_str_eq (Some s) v = str_eq s v"

section \<open>The outside world\<close>

text \<open>
  A \<open>response\<close> is what \<^verbatim>\<open>requests\<close> returns: the status code and the text, the text
  given by what \<^verbatim>\<open>json.loads(r.text)\<close> makes of it (\<open>None\<close> when it raises
  \<^verbatim>\<open>JSONDecodeError\<close>).
\<close>

record response =
  status_code :: int
  loads_text :: "json option"

definition json_loads :: "response \<Rightarrow> exn + json" where
  "json_loads r = (case loads_text r of None \<Rightarrow> Inl JSONDecodeError | Some v \<Rightarrow> Inr v)"

text \<open>The notification email: the headers and the body set in lines 192 to 198.\<close>

record email =
  subject :: string
  sender :: string
  recipient :: string
  reply_to :: "string option"
  body :: string

text \<open>
  What the SMTP conversation of lines 199 to 206 does: an exception before
  \<^verbatim>\<open>sendmail\<close> is called (composing the headers, connecting, TLS, login), an exception
  raised by \<^verbatim>\<open>sendmail\<close>, an exception raised by \<^verbatim>\<open>quit\<close>, or none.
\<close>

datatype smtp_outcome =
    RaisesBeforeSend exn
  | SendRaises exn
  | QuitRaises exn
  | Delivered

text \<open>
  The world at the time of one call: the answer of the homeserver to each request the
  script makes, \<open>Inl e\<close> when the request itself raises \<open>e\<close> (no response), and the outcome
  of an SMTP conversation. The room id is the value interpolated into the URL.
  \<^item> \<open>joined_rooms_get\<close>: \<^verbatim>\<open>GET /_matrix/client/v3/joined_rooms\<close>
  \<^item> \<open>room_name_get\<close>: \<^verbatim>\<open>GET /_matrix/client/v3/rooms/{room_id}/state/m.room.name\<close>
  \<^item> \<open>members_get\<close>: \<^verbatim>\<open>GET /_matrix/client/v3/rooms/{room_id}/members?...&membership=join\<close>
  \<^item> \<open>invite_post\<close>: \<^verbatim>\<open>POST /_matrix/client/v3/rooms/{to_invite_id}/invite\<close> with the user id
\<close>

record world =
  joined_rooms_get :: "exn + response"
  room_name_get :: "json \<Rightarrow> exn + response"
  members_get :: "json \<Rightarrow> exn + response"
  invite_post :: "json \<Rightarrow> string \<Rightarrow> exn + response"
  smtp_session :: "email \<Rightarrow> smtp_outcome"

text \<open>
  What the handler reads of the \<^verbatim>\<open>room\<close> and of the \<^verbatim>\<open>event\<close> that the client library
  hands it: \<^verbatim>\<open>room.room_id\<close>, \<^verbatim>\<open>room.display_name\<close>, \<^verbatim>\<open>event.membership\<close>,
  \<^verbatim>\<open>event.prev_membership\<close> (which may be \<^verbatim>\<open>None\<close>), \<^verbatim>\<open>event.state_key\<close> and
  \<^verbatim>\<open>event.content["displayname"]\<close> (\<open>None\<close> when the content has no such key).
\<close>

record room =
  room_id :: string
  display_name :: string

record event =
  membership :: string
  prev_membership :: "string option"
  state_key :: string
  content_displayname :: "string option"

section \<open>Effects\<close>

text \<open>
  Each call of \<^verbatim>\<open>log\<close> is recorded with the place it is made at and the values it
  formats. (\<^verbatim>\<open>log\<close> prints when the key \<^verbatim>\<open>verbose\<close> is in \<^verbatim>\<open>config\<close>.)
\<close>

datatype log_entry =
    LogRoomMembers exn
  | LogJoinedRooms exn
  | LogSubscribed json
  | LogMemberCount nat
  | LogInvitationTarget
  | LogWatching "json list"
  | LogNoticedJoin string string
  | LogAlreadyKnown
  | LogNewMember string string string string
  | LogEmailSent
  | LogEmailException exn

datatype effect =
    Log log_entry
  | PrintCannotFind
  | GetJoinedRooms
  | GetRoomName json
  | GetMembers json
  | PostInvite json string
  | SendMail email

text \<open>
  A call yields the effects it performed, in order, and then either the exception it raised
  (\<open>Inl\<close>) or the value it returned (\<open>Inr\<close>).
\<close>

type_synonym 'a io = "effect list \<times> (exn + 'a)"

section \<open>Configuration and registry (lines 42 to 114)\<close>

text \<open>
  The command line options the decision logic reads. \<^verbatim>\<open>--matrixwatch\<close> and
  \<^verbatim>\<open>--matrixinvite\<close> take any number of names and are \<^verbatim>\<open>None\<close> when not given.
\<close>

record config =
  space :: string
  watch :: "string list option"
  invite :: "string list option"
  email_subject :: string
  email_from :: string
  email_to :: string
  email_replyto :: "string option"

text \<open>Lines 106 to 111: a list is appended when it is neither \<^verbatim>\<open>None\<close> nor empty.\<close>

definition watched_rooms :: "config \<Rightarrow> string list" where
  "watched_rooms c =
     (case watch c of
        None \<Rightarrow> [space c]
      | Some ws \<Rightarrow> if ws = [] then [space c] else [space c] @ ws)"

definition to_invite :: "config \<Rightarrow> string list" where
  "to_invite c =
     (case invite c of
        None \<Rightarrow> []
      | Some ts \<Rightarrow> if ts = [] then [] else [] @ ts)"

text \<open>The three globals that \<^verbatim>\<open>populate_watched_room_ids\<close> writes, and their initial values.\<close>

record registry =
  watched_room_ids :: "json list"
  to_invite_ids :: "json list"
  space_id :: json

definition initial_registry :: registry where
  "initial_registry = \<lparr>watched_room_ids = [], to_invite_ids = [], space_id = JNull\<rparr>"

section \<open>\<^verbatim>\<open>room_members\<close> (lines 116 to 126)\<close>

text \<open>
  The list comprehension \<^verbatim>\<open>[umap['user_id'] for umap in ...]\<close>: it raises at the first
  element that has no \<^verbatim>\<open>user_id\<close>.
\<close>

fun user_ids :: "json list \<Rightarrow> exn + json list" where
  "user_ids [] = Inr []"
| "user_ids (umap # rest) =
     (case subscript umap ''user_id'' of
        Inl e \<Rightarrow> Inl e
      | Inr u \<Rightarrow> (case user_ids rest of Inl e \<Rightarrow> Inl e | Inr us \<Rightarrow> Inr (u # us)))"

text \<open>Line 122, the body of the \<^verbatim>\<open>try\<close>.\<close>

definition chunk_user_ids :: "response \<Rightarrow> exn + json list" where
  "chunk_user_ids r =
     (case json_loads r of
        Inl e \<Rightarrow> Inl e
      | Inr v \<Rightarrow>
          (case subscript v ''chunk'' of
             Inl e \<Rightarrow> Inl e
           | Inr c \<Rightarrow> (case py_iter c of Inl e \<Rightarrow> Inl e | Inr umaps \<Rightarrow> user_ids umaps)))"

definition room_members :: "world \<Rightarrow> json \<Rightarrow> json list io" where
  "room_members w rid =
     (case members_get w rid of
        Inl e \<Rightarrow> ([GetMembers rid], Inl e)
      | Inr r \<Rightarrow>
          if status_code r \<noteq> 200 then ([GetMembers rid], Inr [])
          else (case chunk_user_ids r of
                  Inl e \<Rightarrow> ([GetMembers rid, Log (LogRoomMembers e)], Inr [])
                | Inr members \<Rightarrow> ([GetMembers rid], Inr members)))"

section \<open>\<^verbatim>\<open>populate_watched_room_ids\<close> (lines 128 to 157)\<close>










section \<open>\<^verbatim>\<open>room_joined\<close> (lines 168 to 172)\<close>


section \<open>\<^verbatim>\<open>user_already_known\<close> (lines 159 to 166)\<close>

fun user_already_known :: "world \<Rightarrow> json list \<Rightarrow> string \<Rightarrow> string option \<Rightarrow> bool io" where
  "user_already_known w [] user_id exclude_room = ([], Inr False)"
| "user_already_known w (rid # rest) user_id exclude_room =
     (if opt_str_eq exclude_room rid then user_already_known w rest user_id exclude_room
      else
        (case room_members w rid of
           (es, Inl e) \<Rightarrow> (es, Inl e)
         | (es, Inr ms) \<Rightarrow>
             if str_in user_id ms then (es, Inr True)
             else
               (case user_already_known w rest user_id exclude_room of
                  (es2, res) \<Rightarrow> (es @ es2, res))))"

section \<open>\<^verbatim>\<open>notify\<close> (lines 174 to 209)\<close>

text \<open>Line 177.\<close>

definition is_join :: "event \<Rightarrow> bool" where
  "is_join ev = (membership ev = ''join'' \<and> Some (membership ev) \<noteq> prev_membership ev)"

text \<open>The loop of lines 187 and 188: the response is assigned and not looked at.\<close>

fun send_invites :: "world \<Rightarrow> json list \<Rightarrow> string \<Rightarrow> unit io" where
  "send_invites w [] user_id = ([], Inr ())"
| "send_invites w (to_invite_id # rest) user_id =
     (case invite_post w to_invite_id user_id of
        Inl e \<Rightarrow> ([PostInvite to_invite_id user_id], Inl e)
      | Inr r \<Rightarrow>
          (case send_invites w rest user_id of
             (es, res) \<Rightarrow> (PostInvite to_invite_id user_id # es, res)))"

text \<open>Lines 184 to 188; the result carries \<^verbatim>\<open>room_type\<close>.\<close>

definition invite_phase :: "world \<Rightarrow> registry \<Rightarrow> room \<Rightarrow> event \<Rightarrow> string io" where
  "invite_phase w reg rm ev =
     (if str_eq (room_id rm) (space_id reg) then
        (case send_invites w (to_invite_ids reg) (state_key ev) of
           (es, Inl e) \<Rightarrow> (es, Inl e)
         | (es, Inr u) \<Rightarrow> (es, Inr ''space''))
      else ([], Inr ''room''))"

text \<open>The message of lines 194 to 198.\<close>

definition compose :: "config \<Rightarrow> string \<Rightarrow> string \<Rightarrow> room \<Rightarrow> event \<Rightarrow> email" where
  \<open>compose c dn room_type rm ev =
     \<lparr>subject = email_subject c, sender = email_from c, recipient = email_to c,
      reply_to = email_replyto c,
      body = ''New member "'' @ dn @ ''" ('' @ state_key ev @ '') joined the matrix '' @
             room_type @ '' '' @ display_name rm\<rparr>\<close>

text \<open>The body of the \<^verbatim>\<open>try\<close>, lines 192 to 206.\<close>

definition try_email :: "world \<Rightarrow> config \<Rightarrow> string \<Rightarrow> room \<Rightarrow> event \<Rightarrow> unit io" where
  "try_email w c room_type rm ev =
     (case content_displayname ev of
        None \<Rightarrow> ([], Inl (KeyError ''displayname''))
      | Some dn \<Rightarrow>
          (let msg = compose c dn room_type rm ev;
               new = Log (LogNewMember dn (state_key ev) room_type (display_name rm))
           in case smtp_session w msg of
                RaisesBeforeSend e \<Rightarrow> ([new], Inl e)
              | SendRaises e \<Rightarrow> ([new, SendMail msg], Inl e)
              | QuitRaises e \<Rightarrow> ([new, SendMail msg, Log LogEmailSent], Inl e)
              | Delivered \<Rightarrow> ([new, SendMail msg, Log LogEmailSent], Inr ())))"

text \<open>Lines 190 to 209: the \<^verbatim>\<open>except Exception\<close> clause logs and falls through.\<close>

definition email_phase :: "world \<Rightarrow> config \<Rightarrow> string \<Rightarrow> room \<Rightarrow> event \<Rightarrow> unit io" where
  "email_phase w c room_type rm ev =
     (if display_name rm \<in> set (watched_rooms c) then
        (case try_email w c room_type rm ev of
           (es, Inl e) \<Rightarrow> (es @ [Log (LogEmailException e)], Inr ())
         | (es, Inr u) \<Rightarrow> (es, Inr ()))
      else ([], Inr ()))"

text \<open>The \<^verbatim>\<open>else\<close> branch of line 181: the user is new.\<close>

definition new_member :: "world \<Rightarrow> config \<Rightarrow> registry \<Rightarrow> room \<Rightarrow> event \<Rightarrow> unit io" where
  "new_member w c reg rm ev =
     (case invite_phase w reg rm ev of
        (es, Inl e) \<Rightarrow> (es, Inl e)
      | (es, Inr room_type) \<Rightarrow>
          (case email_phase w c room_type rm ev of
             (es2, res) \<Rightarrow> (es @ es2, res)))"

definition notify :: "world \<Rightarrow> config \<Rightarrow> registry \<Rightarrow> room \<Rightarrow> event \<Rightarrow> unit io" where
  "notify w c reg rm ev =
     (if is_join ev then
        (case user_already_known w (watched_room_ids reg) (state_key ev) (Some (room_id rm)) of
           (es, Inl e) \<Rightarrow> (Log (LogNoticedJoin (display_name rm) (room_id rm)) # es, Inl e)
         | (es, Inr known) \<Rightarrow>
             if known then
               (Log (LogNoticedJoin (display_name rm) (room_id rm)) # es @ [Log LogAlreadyKnown],
                Inr ())
             else
               (case new_member w c reg rm ev of
                  (es2, res) \<Rightarrow>
                    (Log (LogNoticedJoin (display_name rm) (room_id rm)) # es @ es2, res)))
      else ([], Inr ()))"

section \<open>The listener (line 213)\<close>

text \<open>
  \<^verbatim>\<open>bot.run()\<close> hands the membership events to \<^verbatim>\<open>notify\<close> one after the other, each with
  the world as it is then; an exception that \<^verbatim>\<open>notify\<close> raises ends the run (and reaches the
  \<^verbatim>\<open>except\<close> clause of line 214).
\<close>

fun run :: "config \<Rightarrow> registry \<Rightarrow> (world \<times> room \<times> event) list \<Rightarrow> unit io" where
  "run c reg [] = ([], Inr ())"
| "run c reg ((w, rm, ev) # rest) =
     (case notify w c reg rm ev of
        (es, Inl e) \<Rightarrow> (es, Inl e)
      | (es, Inr u) \<Rightarrow> (case run c reg rest of (es2, res) \<Rightarrow> (es @ es2, res)))"

section \<open>Observations on a trace of effects\<close>

fun is_invite :: "effect \<Rightarrow> bool" where
  "is_invite (PostInvite t u) = True"
| "is_invite _ = False"

fun is_mail :: "effect \<Rightarrow> bool" where
  "is_mail (SendMail m) = True"
| "is_mail _ = False"

fun is_log :: "effect \<Rightarrow> bool" where
  "is_log (Log l) = True"
| "is_log _ = False"

fun is_query :: "effect \<Rightarrow> bool" where
  "is_query (GetMembers r) = True"
| "is_query _ = False"

section \<open>What the specification calls the members of a room\<close>

text \<open>
  The answer the homeserver gives to a members request has the key \<^verbatim>\<open>chunk\<close> with a list of
  member events, each an object with a \<^verbatim>\<open>user_id\<close>. \<open>spec_members_of_body\<close> reads the user
  ids off a body of that shape, and is \<open>None\<close> on any other body.
\<close>

fun member_entry :: "json \<Rightarrow> json option" where
  "member_entry (JObj kvs) = map_of kvs ''user_id''"
| "member_entry _ = None"

fun member_entries :: "json list \<Rightarrow> json list option" where
  "member_entries [] = Some []"
| "member_entries (x # xs) =
     (case member_entry x of
        None \<Rightarrow> None
      | Some u \<Rightarrow> (case member_entries xs of None \<Rightarrow> None | Some us \<Rightarrow> Some (u # us)))"

fun spec_members_of_body :: "json option \<Rightarrow> json list option" where
  "spec_members_of_body (Some (JObj kvs)) =
     (case map_of kvs ''chunk'' of Some (JArr umaps) \<Rightarrow> member_entries umaps | _ \<Rightarrow> None)"
| "spec_members_of_body _ = None"

section \<open>What the specification calls a known user\<close>

text \<open>A request raises when it gives an exception and no response.\<close>

definition raises :: "exn + 'a \<Rightarrow> bool" where
  "raises x = (case x of Inl e \<Rightarrow> True | Inr v \<Rightarrow> False)"

text \<open>
  The member list of a room is what \<open>room_members\<close> returns for it. A user is known elsewhere
  when some watched room other than the excluded one has the user in its member list.
  \<open>through_first P xs\<close> is \<open>xs\<close> up to and including its first element with \<open>P\<close>, and
  \<open>queried\<close> lists the rooms whose members a trace asks for.
\<close>

definition members_of :: "world \<Rightarrow> json \<Rightarrow> json list" where
  "members_of w rid = (case snd (room_members w rid) of Inl e \<Rightarrow> [] | Inr ms \<Rightarrow> ms)"

definition known_elsewhere :: "world \<Rightarrow> json list \<Rightarrow> string \<Rightarrow> string option \<Rightarrow> bool" where
  "known_elsewhere w ids u x =
     list_ex (\<lambda>r. \<not> opt_str_eq x r \<and> str_in u (members_of w r)) ids"

fun through_first :: "('a \<Rightarrow> bool) \<Rightarrow> 'a list \<Rightarrow> 'a list" where
  "through_first P [] = []"
| "through_first P (x # xs) = (if P x then [x] else x # through_first P xs)"

fun queried :: "effect list \<Rightarrow> json list" where
  "queried [] = []"
| "queried (GetMembers r # es) = r # queried es"
| "queried (e # es) = queried es"

text \<open>
  The rooms \<open>user_already_known\<close> may ask are the watched rooms other than the excluded one.
  A room decides the call when its members request raises or its member list has the user.
\<close>

definition candidates :: "string option \<Rightarrow> json list \<Rightarrow> json list" where
  "candidates x ids = filter (\<lambda>r. \<not> opt_str_eq x r) ids"

definition decisive :: "world \<Rightarrow> string \<Rightarrow> json \<Rightarrow> bool" where
  "decisive w u r = (raises (members_get w r) \<or> str_in u (members_of w r))"

text \<open>What the call takes from the room that decides it.\<close>

definition verdict :: "world \<Rightarrow> string \<Rightarrow> json \<Rightarrow> exn + bool" where
  "verdict w u r =
     (case members_get w r of Inl e \<Rightarrow> Inl e | Inr resp \<Rightarrow> Inr (str_in u (members_of w r)))"


section \<open>What the specification calls resolving the registry\<close>

text \<open>
  The name of a room is the \<^verbatim>\<open>name\<close> of the body that answers the name request with status
  200; a room whose request raises, is answered otherwise or has no such body has none.
  \<open>named_in\<close> says that the name of a room is one of the given names.
\<close>

definition room_name :: "world \<Rightarrow> json \<Rightarrow> json option" where
  "room_name w rid =
     (case room_name_get w rid of
        Inl e \<Rightarrow> None
      | Inr r \<Rightarrow>
          if status_code r \<noteq> 200 then None
          else (case loads_text r of Some (JObj kvs) \<Rightarrow> map_of kvs ''name'' | _ \<Rightarrow> None))"

definition named_in :: "world \<Rightarrow> string list \<Rightarrow> json \<Rightarrow> bool" where
  "named_in w names rid = (case room_name w rid of None \<Rightarrow> False | Some n \<Rightarrow> in_strs n names)"




section \<open>An example deployment\<close>

text \<open>
  The bot is configured with the space \<^verbatim>\<open>Space\<close>, the watched room \<^verbatim>\<open>RoomA\<close> and the invite
  targets \<^verbatim>\<open>RoomB\<close> and \<^verbatim>\<open>RoomC\<close>. On the homeserver \<open>home\<close> it has joined these four rooms
  and a room without a name; \<^verbatim>\<open>@old:x\<close> is in the space and in \<^verbatim>\<open>RoomA\<close>. The members of
  \<^verbatim>\<open>!n:x\<close> cannot be read, and the answer for \<^verbatim>\<open>!g:x\<close> is not JSON.
\<close>

definition cfg :: config where
  "cfg = \<lparr>space = ''Space'', watch = Some [''RoomA''], invite = Some [''RoomB'', ''RoomC''],
          email_subject = ''New member'', email_from = ''bot@x'', email_to = ''admin@x'',
          email_replyto = None\<rparr>"

definition ok :: "json \<Rightarrow> exn + response" where
  "ok v = Inr \<lparr>status_code = 200, loads_text = Some v\<rparr>"

definition member_chunk :: "string list \<Rightarrow> json" where
  "member_chunk us =
     JObj [(''chunk'', JArr (map (\<lambda>u. JObj [(''type'', JStr ''m.room.member''),
                                             (''user_id'', JStr u)]) us))]"

definition home :: world where
  "home =
     \<lparr>joined_rooms_get =
        ok (JObj [(''joined_rooms'', JArr [JStr ''!s:x'', JStr ''!a:x'', JStr ''!b:x'', JStr ''!c:x'',
                                            JStr ''!n:x''])]),
      room_name_get = (\<lambda>rid.
        if rid = JStr ''!s:x'' then ok (JObj [(''name'', JStr ''Space'')])
        else if rid = JStr ''!a:x'' then ok (JObj [(''name'', JStr ''RoomA'')])
        else if rid = JStr ''!b:x'' then ok (JObj [(''name'', JStr ''RoomB'')])
        else if rid = JStr ''!c:x'' then ok (JObj [(''name'', JStr ''RoomC'')])
        else Inr \<lparr>status_code = 404, loads_text = Some (JObj [(''errcode'', JStr ''M_NOT_FOUND'')])\<rparr>),
      members_get = (\<lambda>rid.
        if rid = JStr ''!s:x'' then ok (member_chunk [''@bot:x'', ''@old:x''])
        else if rid = JStr ''!a:x'' then ok (member_chunk [''@bot:x'', ''@old:x''])
        else if rid = JStr ''!b:x'' then ok (member_chunk [''@bot:x''])
        else if rid = JStr ''!c:x'' then ok (member_chunk [''@bot:x''])
        else if rid = JStr ''!g:x'' then Inr \<lparr>status_code = 200, loads_text = None\<rparr>
        else Inr \<lparr>status_code = 403, loads_text = Some (JObj [(''errcode'', JStr ''M_FORBIDDEN'')])\<rparr>),
      invite_post = (\<lambda>rid u. ok (JObj [])),
      smtp_session = (\<lambda>m. Delivered)\<rparr>"

text \<open>The registry that resolution gives on \<open>home\<close>.\<close>

definition resolved :: registry where
  "resolved = \<lparr>watched_room_ids = [JStr ''!s:x'', JStr ''!a:x''],
               to_invite_ids = [JStr ''!b:x'', JStr ''!c:x''], space_id = JStr ''!s:x''\<rparr>"

text \<open>Some rooms and events.\<close>

definition the_space :: room where
  "the_space = \<lparr>room_id = ''!s:x'', display_name = ''Space''\<rparr>"

definition room_a :: room where
  "room_a = \<lparr>room_id = ''!a:x'', display_name = ''RoomA''\<rparr>"

definition joins :: "string \<Rightarrow> event" where
  "joins u = \<lparr>membership = ''join'', prev_membership = None, state_key = u,
              content_displayname = Some ''Someone''\<rparr>"

definition leaves :: "string \<Rightarrow> event" where
  "leaves u = \<lparr>membership = ''leave'', prev_membership = Some ''join'', state_key = u,
               content_displayname = None\<rparr>"

text \<open>A change of display name, or an event delivered again: \<^verbatim>\<open>join\<close> after \<^verbatim>\<open>join\<close>.\<close>

definition renames :: "string \<Rightarrow> event" where
  "renames u = \<lparr>membership = ''join'', prev_membership = Some ''join'', state_key = u,
                content_displayname = Some ''Someone Else''\<rparr>"

text \<open>
  Variations: a homeserver that answers every invite with a refusal, one that cannot be
  reached for the invite to \<^verbatim>\<open>!b:x\<close>, and a mail server that fails when the message is
  handed over.
\<close>

definition refusing :: world where
  "refusing = home\<lparr>invite_post := (\<lambda>rid u.
     Inr \<lparr>status_code = 403, loads_text = Some (JObj [(''errcode'', JStr ''M_FORBIDDEN'')])\<rparr>)\<rparr>"

definition unreachable :: world where
  "unreachable = home\<lparr>invite_post := (\<lambda>rid u.
     if rid = JStr ''!b:x'' then Inl ConnectionError else ok (JObj []))\<rparr>"

definition mail_down :: world where
  "mail_down = home\<lparr>smtp_session := (\<lambda>m. SendRaises SMTPException)\<rparr>"

text \<open>A room that was renamed after resolution, and a room that took a watched name.\<close>

definition renamed_a :: room where
  "renamed_a = \<lparr>room_id = ''!a:x'', display_name = ''Lounge''\<rparr>"

definition other_a :: room where
  "other_a = \<lparr>room_id = ''!z:x'', display_name = ''RoomA''\<rparr>"

text \<open>The same homeserver while the members of the space cannot be asked for.\<close>

definition space_down :: world where
  "space_down = home\<lparr>members_get := (\<lambda>rid.
     if rid = JStr ''!s:x'' then Inl ConnectionError else members_get home rid)\<rparr>"

text \<open>The same homeserver while every invite request times out.\<close>

definition timing_out :: world where
  "timing_out = home\<lparr>invite_post := (\<lambda>rid u. Inl (OtherException ''ReadTimeout''))\<rparr>"

text \<open>
  The homeserver before the bot has joined the space and \<^verbatim>\<open>RoomA\<close>, and the homeserver
  behind a gateway that fails.
\<close>

definition outside :: world where
  "outside = home\<lparr>joined_rooms_get :=
     ok (JObj [(''joined_rooms'', JArr [JStr ''!b:x'', JStr ''!c:x''])])\<rparr>"

definition gateway_down :: world where
  "gateway_down = home\<lparr>joined_rooms_get := Inr \<lparr>status_code = 502, loads_text = None\<rparr>\<rparr>"

definition targets_only :: registry where
  "targets_only = \<lparr>watched_room_ids = [], to_invite_ids = [JStr ''!b:x'', JStr ''!c:x''],
                   space_id = JNull\<rparr>"

section \<open>Evaluating the model on the example\<close>

lemmas eval_defs =
  notify_def new_member_def invite_phase_def email_phase_def try_email_def compose_def
  is_join_def room_members_def chunk_user_ids_def json_loads_def str_in_def str_eq_def
  watched_rooms_def to_invite_def
  home_def cfg_def resolved_def ok_def member_chunk_def the_space_def room_a_def joins_def
  leaves_def renames_def initial_registry_def
  refusing_def unreachable_def mail_down_def renamed_a_def other_a_def space_down_def timing_out_def
  outside_def gateway_down_def targets_only_def




section \<open>\<^verbatim>\<open>room_members\<close>\<close>

lemma member_entry_subscript:
  "member_entry x = (case subscript x ''user_id'' of Inr u \<Rightarrow> Some u | Inl e \<Rightarrow> None)"
  by (cases x) (auto split: option.splits)

lemma member_entries_user_ids:
  "member_entries xs = (case user_ids xs of Inr us \<Rightarrow> Some us | Inl e \<Rightarrow> None)"
  by (induction xs) (simp_all add: member_entry_subscript split: sum.splits)

lemma user_ids_strs: "user_ids (map (\<lambda>x. JStr (f x)) xs) = Inr us \<Longrightarrow> us = []"
  by (cases xs) (auto split: sum.splits)

lemma chunk_user_ids_spec:
  assumes "chunk_user_ids r = Inr ms"
  shows "ms = (case spec_members_of_body (loads_text r) of Some ids \<Rightarrow> ids | None \<Rightarrow> [])"
proof (cases "loads_text r")
  case None
  with assms show ?thesis by (simp add: chunk_user_ids_def json_loads_def)
next
  case (Some v)
  show ?thesis
  proof (cases v)
    case (JObj kvs)
    show ?thesis
    proof (cases "map_of kvs ''chunk''")
      case None
      with assms Some JObj show ?thesis by (simp add: chunk_user_ids_def json_loads_def)
    next
      case inner: (Some c)
      with assms Some JObj show ?thesis
        by (cases c) (auto simp: chunk_user_ids_def json_loads_def member_entries_user_ids dest: user_ids_strs)
    qed
  qed (use assms Some in \<open>simp_all add: chunk_user_ids_def json_loads_def\<close>)
qed

lemma chunk_user_ids_raises:
  assumes "chunk_user_ids r = Inl e"
  shows "spec_members_of_body (loads_text r) = None"
proof (cases "loads_text r")
  case None
  then show ?thesis by simp
next
  case (Some v)
  show ?thesis
  proof (cases v)
    case (JObj kvs)
    show ?thesis
    proof (cases "map_of kvs ''chunk''")
      case None
      with Some JObj show ?thesis by simp
    next
      case inner: (Some c)
      with assms Some JObj show ?thesis
        by (cases c) (auto simp: chunk_user_ids_def json_loads_def member_entries_user_ids)
    qed
  qed (use Some in simp_all)
qed

text \<open>
  Claim C6. Whenever the members request gives a response, \<open>room_members\<close> returns and does
  not raise: the user ids of the members listed in the response when the status is 200 and
  the body has the expected shape, and the empty list when the status is not 200 or the body
  does not parse to that shape.
\<close>

theorem room_members_result:
  assumes "members_get w rid = Inr r"
  shows "snd (room_members w rid) =
           Inr (if status_code r = 200
                then (case spec_members_of_body (loads_text r) of Some ids \<Rightarrow> ids | None \<Rightarrow> [])
                else [])"
proof (cases "chunk_user_ids r")
  case (Inl e)
  with assms chunk_user_ids_raises [OF Inl] show ?thesis by (simp add: room_members_def)
next
  case (Inr ms)
  with assms chunk_user_ids_spec [OF Inr] show ?thesis by (simp add: room_members_def)
qed

theorem room_members_result_witness:
  "members_get home (JStr ''!a:x'') = ok (member_chunk [''@bot:x'', ''@old:x''])
   \<and> snd (room_members home (JStr ''!a:x'')) = Inr [JStr ''@bot:x'', JStr ''@old:x'']
   \<and> members_get home (JStr ''!n:x'') =
       Inr \<lparr>status_code = 403, loads_text = Some (JObj [(''errcode'', JStr ''M_FORBIDDEN'')])\<rparr>
   \<and> snd (room_members home (JStr ''!n:x'')) = Inr []
   \<and> members_get home (JStr ''!g:x'') = Inr \<lparr>status_code = 200, loads_text = None\<rparr>
   \<and> snd (room_members home (JStr ''!g:x'')) = Inr []"
  using room_members_result [of home "JStr ''!a:x''"]
        room_members_result [of home "JStr ''!n:x''"]
        room_members_result [of home "JStr ''!g:x''"]
  by (simp add: home_def ok_def member_chunk_def)

section \<open>\<^verbatim>\<open>user_already_known\<close>\<close>

lemma through_first_none: "list_all (\<lambda>x. \<not> P x) xs \<Longrightarrow> through_first P xs = xs"
  by (induction xs) simp_all

lemma through_first_set: "x \<in> set (through_first P xs) \<Longrightarrow> x \<in> set xs"
  by (induction xs) (auto split: if_splits)

lemma queried_append: "queried (es @ es') = queried es @ queried es'"
  by (induction es rule: queried.induct) simp_all

lemma queried_room_members: "queried (fst (room_members w r)) = [r]"
  by (simp add: room_members_def split: sum.splits)

lemma room_members_returns:
  "\<not> raises (members_get w r) \<Longrightarrow> snd (room_members w r) = Inr (members_of w r)"
  by (auto simp: raises_def members_of_def room_members_def split: sum.splits)

lemma room_members_raises:
  "snd (room_members w r) = Inl e \<longleftrightarrow> members_get w r = Inl e"
  by (auto simp: room_members_def split: sum.splits)

lemma user_already_known_returning:
  assumes "\<forall>r\<in>set ids. \<not> opt_str_eq x r \<longrightarrow> \<not> raises (members_get w r)"
  shows "snd (user_already_known w ids u x) = Inr (known_elsewhere w ids u x) \<and>
         queried (fst (user_already_known w ids u x)) =
           through_first (\<lambda>r. str_in u (members_of w r)) (filter (\<lambda>r. \<not> opt_str_eq x r) ids)"
  using assms
proof (induction ids)
  case Nil
  show ?case by (simp add: known_elsewhere_def)
next
  case (Cons r rest)
  then have IH: "snd (user_already_known w rest u x) = Inr (known_elsewhere w rest u x)"
     "queried (fst (user_already_known w rest u x)) =
           through_first (\<lambda>r. str_in u (members_of w r)) (filter (\<lambda>r. \<not> opt_str_eq x r) rest)"
    by simp_all
  show ?case
  proof (cases "opt_str_eq x r")
    case True
    with IH show ?thesis by (simp add: known_elsewhere_def)
  next
    case False
    with Cons.prems have "\<not> raises (members_get w r)" by simp
    then have rm: "snd (room_members w r) = Inr (members_of w r)"
      by (rule room_members_returns)
    obtain es where es: "room_members w r = (es, Inr (members_of w r))" "queried es = [r]"
      using rm queried_room_members [of w r] by (cases "room_members w r") simp
    show ?thesis
    proof (cases "str_in u (members_of w r)")
      case True
      with False es show ?thesis by (simp add: known_elsewhere_def)
    next
      case nf: False
      obtain es2 res where rest: "user_already_known w rest u x = (es2, res)"
        by (cases "user_already_known w rest u x")
      with False nf es IH show ?thesis
        by (simp add: known_elsewhere_def queried_append)
    qed
  qed
qed

lemma known_raise_or_true:
  assumes "known_elsewhere w ids u x"
  shows "snd (user_already_known w ids u x) \<noteq> Inr False"
  using assms
proof (induction ids)
  case Nil
  then show ?case by (simp add: known_elsewhere_def)
next
  case (Cons r rest)
  show ?case
  proof (cases "opt_str_eq x r")
    case True
    with Cons show ?thesis by (simp add: known_elsewhere_def)
  next
    case False
    obtain es res where rm: "room_members w r = (es, res)" by (cases "room_members w r")
    obtain es2 res2 where rest: "user_already_known w rest u x = (es2, res2)"
      by (cases "user_already_known w rest u x")
    show ?thesis
    proof (cases res)
      case (Inl e)
      with False rm show ?thesis by simp
    next
      case (Inr ms)
      with rm have "members_of w r = ms" by (simp add: members_of_def)
      with Cons False rm rest Inr show ?thesis
        by (auto simp: known_elsewhere_def)
    qed
  qed
qed

lemma members_of_raises: "raises (members_get w r) \<Longrightarrow> members_of w r = []"
  by (auto simp: raises_def members_of_def room_members_def split: sum.splits)

lemma through_first_Nil: "through_first P xs = [] \<longleftrightarrow> xs = []"
  by (cases xs) simp_all

lemma last_through_first:
  "xs \<noteq> [] \<Longrightarrow> last (through_first P xs) \<in> set xs"
  using through_first_set [of "last (through_first P xs)" P xs]
  by (simp add: through_first_Nil)

lemma user_already_known_outcome:
  "queried (fst (user_already_known w ids u x)) =
     through_first (decisive w u) (candidates x ids) \<and>
   snd (user_already_known w ids u x) =
     (if candidates x ids = [] then Inr False
      else verdict w u (last (through_first (decisive w u) (candidates x ids))))"
proof (induction ids)
  case Nil
  show ?case by (simp add: candidates_def)
next
  case (Cons r rest)
  show ?case
  proof (cases "opt_str_eq x r")
    case True
    then have "candidates x (r # rest) = candidates x rest" by (simp add: candidates_def)
    with Cons True show ?thesis by simp
  next
    case False
    then have c: "candidates x (r # rest) = r # candidates x rest"
      by (simp add: candidates_def)
    show ?thesis
    proof (cases "members_get w r")
      case (Inl e)
      then have "room_members w r = ([GetMembers r], Inl e)" by (simp add: room_members_def)
      with False Inl show ?thesis by (simp add: c decisive_def raises_def verdict_def)
    next
      case (Inr resp)
      then have nr: "\<not> raises (members_get w r)" by (simp add: raises_def)
      from room_members_returns [OF nr] queried_room_members [of w r]
      obtain es where es: "room_members w r = (es, Inr (members_of w r))" "queried es = [r]"
        by (cases "room_members w r") simp
      show ?thesis
      proof (cases "str_in u (members_of w r)")
        case True
        with False es Inr show ?thesis by (simp add: c decisive_def verdict_def)
      next
        case nf: False
        obtain es2 res where rest: "user_already_known w rest u x = (es2, res)"
          by (cases "user_already_known w rest u x")
        from nf nr have nd: "\<not> decisive w u r" by (simp add: decisive_def)
        from Cons rest have IH1: "queried es2 = through_first (decisive w u) (candidates x rest)"
          and IH2: "res = (if candidates x rest = [] then Inr False
      else verdict w u (last (through_first (decisive w u) (candidates x rest))))"
          by simp_all
        show ?thesis
        proof (cases "candidates x rest = []")
          case True
          with False nf nd es rest IH1 IH2 Inr c show ?thesis
            by (simp add: queried_append verdict_def)
        next
          case ne: False
          then have "through_first (decisive w u) (candidates x rest) \<noteq> []"
            by (simp add: through_first_Nil)
          with False nf nd es rest IH1 IH2 c ne show ?thesis
            by (simp add: queried_append)
        qed
      qed
    qed
  qed
qed

text \<open>
  Claim C3, as amended. \<open>user_already_known\<close> asks for the members of the watched rooms other
  than the excluded one, in order, up to and including the first whose request raises or whose
  member list has the user, and of no room after that. It returns true if and only if the
  last room it asked has the user in its member list, and it raises if and only if the
  request for the last room it asked raises. So a result of true means that a watched room
  other than the excluded one has the user, and when no request raises the result is true
  exactly when there is such a room.
\<close>

theorem user_already_known_iff:
  "queried (fst (user_already_known w ids u x)) =
     through_first (decisive w u) (candidates x ids) \<and>
   (snd (user_already_known w ids u x) = Inr True \<longleftrightarrow>
      queried (fst (user_already_known w ids u x)) \<noteq> [] \<and>
      str_in u (members_of w (last (queried (fst (user_already_known w ids u x)))))) \<and>
   (snd (user_already_known w ids u x) = Inl e \<longleftrightarrow>
      queried (fst (user_already_known w ids u x)) \<noteq> [] \<and>
      members_get w (last (queried (fst (user_already_known w ids u x)))) = Inl e) \<and>
   (snd (user_already_known w ids u x) = Inr True \<longrightarrow> known_elsewhere w ids u x) \<and>
   (list_all (\<lambda>r. \<not> raises (members_get w r)) (candidates x ids) \<longrightarrow>
      snd (user_already_known w ids u x) = Inr (known_elsewhere w ids u x))"
proof -
  let ?U = "user_already_known w ids u x"
  let ?S = "through_first (decisive w u) (candidates x ids)"
  note out = user_already_known_outcome [of w ids u x]
  from out have q: "queried (fst ?U) = ?S" by simp
  have ne: "?S \<noteq> [] \<longleftrightarrow> candidates x ids \<noteq> []" by (simp add: through_first_Nil)
  have t: "snd ?U = Inr True \<longleftrightarrow> ?S \<noteq> [] \<and> str_in u (members_of w (last ?S))"
  proof (cases "candidates x ids = []")
    case True
    with out show ?thesis by simp
  next
    case False
    show ?thesis
    proof (cases "members_get w (last ?S)")
      case (Inl e')
      then have "members_of w (last ?S) = []" by (simp add: members_of_raises raises_def)
      with out False Inl show ?thesis by (simp add: str_in_def verdict_def)
    next
      case (Inr r)
      with out False ne show ?thesis by (simp add: verdict_def)
    qed
  qed
  have r: "snd ?U = Inl e \<longleftrightarrow> ?S \<noteq> [] \<and> members_get w (last ?S) = Inl e"
  proof (cases "candidates x ids = []")
    case True
    with out show ?thesis by simp
  next
    case False
    with out ne show ?thesis by (cases "members_get w (last ?S)") (simp_all add: verdict_def)
  qed
  have k: "known_elsewhere w ids u x" if "snd ?U = Inr True"
  proof -
    from that t have s: "?S \<noteq> []" and m: "str_in u (members_of w (last ?S))" by simp_all
    from s ne last_through_first [of "candidates x ids" "decisive w u"]
    have "last ?S \<in> set (candidates x ids)" by simp
    with m show ?thesis
      by (auto simp: known_elsewhere_def candidates_def list_ex_iff)
  qed
  have n: "snd ?U = Inr (known_elsewhere w ids u x)"
    if "list_all (\<lambda>r. \<not> raises (members_get w r)) (candidates x ids)"
  proof -
    from that have "\<forall>r\<in>set ids. \<not> opt_str_eq x r \<longrightarrow> \<not> raises (members_get w r)"
      by (simp add: candidates_def list_all_iff)
    from user_already_known_returning [OF this] show ?thesis by simp
  qed
  from q t r k n show ?thesis by simp
qed

theorem user_already_known_iff_witness:
  "candidates (Some ''!a:x'') (watched_room_ids resolved) = [JStr ''!s:x'']
   \<and> list_all (\<lambda>r. \<not> raises (members_get home r)) (candidates (Some ''!a:x'') (watched_room_ids resolved))
   \<and> user_already_known home (watched_room_ids resolved) ''@old:x'' (Some ''!a:x'')
       = ([GetMembers (JStr ''!s:x'')], Inr True)
   \<and> known_elsewhere home (watched_room_ids resolved) ''@old:x'' (Some ''!a:x'')
   \<and> str_in ''@old:x'' (members_of home (JStr ''!s:x''))
   \<and> user_already_known space_down (watched_room_ids resolved) ''@old:x'' (Some ''!a:x'')
       = ([GetMembers (JStr ''!s:x'')], Inl ConnectionError)
   \<and> members_get space_down (JStr ''!s:x'') = Inl ConnectionError"
proof -
  have c: "candidates (Some ''!a:x'') (watched_room_ids resolved) = [JStr ''!s:x'']"
    by (simp add: candidates_def resolved_def str_eq_def)
  have nr: "list_all (\<lambda>r. \<not> raises (members_get home r))
      (candidates (Some ''!a:x'') (watched_room_ids resolved))"
    unfolding c by (simp add: raises_def home_def ok_def)
  have u1: "user_already_known home (watched_room_ids resolved) ''@old:x'' (Some ''!a:x'')
       = ([GetMembers (JStr ''!s:x'')], Inr True)"
    by (simp add: eval_defs)
  have u2: "user_already_known space_down (watched_room_ids resolved) ''@old:x'' (Some ''!a:x'')
       = ([GetMembers (JStr ''!s:x'')], Inl ConnectionError)"
    by (simp add: eval_defs)
  note a = user_already_known_iff [of home "watched_room_ids resolved" "''@old:x''" "Some ''!a:x''" ConnectionError]
  note b = user_already_known_iff [of space_down "watched_room_ids resolved" "''@old:x''" "Some ''!a:x''" ConnectionError]
  from a u1 have k: "known_elsewhere home (watched_room_ids resolved) ''@old:x'' (Some ''!a:x'')"
    by simp
  from a u1 have m: "str_in ''@old:x'' (members_of home (JStr ''!s:x''))"
    by simp
  from b u2 have g: "members_get space_down (JStr ''!s:x'') = Inl ConnectionError"
    by simp
  from c nr u1 k m u2 g show ?thesis by blast
qed

text \<open>
  Claim C3 as it is stated fails: \<^verbatim>\<open>@old:x\<close> is in the member list of the watched room
  \<^verbatim>\<open>!a:x\<close>, but the request for the space, which is asked first, raises, and so does the call.
\<close>

theorem user_already_known_raise_counterexample:
  "JStr ''!a:x'' \<in> set (watched_room_ids resolved)
   \<and> \<not> opt_str_eq (Some ''!z:x'') (JStr ''!a:x'')
   \<and> str_in ''@old:x'' (members_of space_down (JStr ''!a:x''))
   \<and> user_already_known space_down (watched_room_ids resolved) ''@old:x'' (Some ''!z:x'')
       = ([GetMembers (JStr ''!s:x'')], Inl ConnectionError)"
  by (simp add: members_of_def eval_defs)

section \<open>The handler: joins, known users, unresolved rooms\<close>

lemma room_members_effects:
  "e \<in> set (fst (room_members w r)) \<Longrightarrow> is_log e \<or> is_query e"
  by (auto simp: room_members_def split: sum.splits if_splits)

lemma user_already_known_effects:
  "e \<in> set (fst (user_already_known w ids u x)) \<Longrightarrow> is_log e \<or> is_query e"
proof (induction ids)
  case Nil
  then show ?case by simp
next
  case (Cons r rest)
  obtain es res where rm: "room_members w r = (es, res)" by (cases "room_members w r")
  obtain es2 res2 where rest: "user_already_known w rest u x = (es2, res2)"
    by (cases "user_already_known w rest u x")
  from room_members_effects [of _ w r] rm have "\<And>e. e \<in> set es \<Longrightarrow> is_log e \<or> is_query e"
    by simp
  with Cons rm rest show ?case
    by (auto split: if_splits sum.splits)
qed

text \<open>
  Claim C1. When the handler classifies an event as a join and the joining user is in the
  member list of a watched room other than the room of the event, the handler posts no
  invite and sends no email: all it does is ask for member lists and log, and when it
  returns its last act is the log line that the user is already known.
\<close>

theorem known_user_no_side_effect:
  assumes "is_join ev"
    and "known_elsewhere w (watched_room_ids reg) (state_key ev) (Some (room_id rm))"
  shows "filter is_invite (fst (notify w c reg rm ev)) = [] \<and>
         filter is_mail (fst (notify w c reg rm ev)) = [] \<and>
         list_all (\<lambda>e. is_log e \<or> is_query e) (fst (notify w c reg rm ev)) \<and>
         (snd (notify w c reg rm ev) = Inr () \<longrightarrow>
            last (fst (notify w c reg rm ev)) = Log LogAlreadyKnown)"
proof -
  obtain es res where uak:
    "user_already_known w (watched_room_ids reg) (state_key ev) (Some (room_id rm)) = (es, res)"
    by (cases "user_already_known w (watched_room_ids reg) (state_key ev) (Some (room_id rm))")
  from known_raise_or_true [OF assms(2)] uak have nf: "res \<noteq> Inr False" by simp
  from user_already_known_effects [of _ w "watched_room_ids reg" "state_key ev" "Some (room_id rm)"] uak
  have es: "\<And>e. e \<in> set es \<Longrightarrow> is_log e \<or> is_query e" by simp
  have only: "\<forall>e\<in>set (fst (notify w c reg rm ev)). is_log e \<or> is_query e"
    using assms(1) uak nf es by (cases res) (auto simp: notify_def)
  have none: "\<not> is_invite e \<and> \<not> is_mail e" if "e \<in> set (fst (notify w c reg rm ev))" for e
  proof -
    from that only have "is_log e \<or> is_query e" by blast
    then show ?thesis by (cases e) simp_all
  qed
  have fin: "snd (notify w c reg rm ev) = Inr () \<longrightarrow>
            last (fst (notify w c reg rm ev)) = Log LogAlreadyKnown"
    using assms(1) uak nf by (cases res) (auto simp: notify_def)
  from none have "filter is_invite (fst (notify w c reg rm ev)) = []"
      "filter is_mail (fst (notify w c reg rm ev)) = []"
    by (simp_all add: filter_empty_conv)
  with only fin show ?thesis by (simp add: list_all_iff)
qed

theorem known_user_no_side_effect_witness:
  "is_join (joins ''@old:x'')
   \<and> known_elsewhere home (watched_room_ids resolved) (state_key (joins ''@old:x''))
         (Some (room_id room_a))
   \<and> filter is_invite (fst (notify home cfg resolved room_a (joins ''@old:x''))) = []
   \<and> filter is_mail (fst (notify home cfg resolved room_a (joins ''@old:x''))) = []
   \<and> notify home cfg resolved room_a (joins ''@old:x'') =
        ([Log (LogNoticedJoin ''RoomA'' ''!a:x''), GetMembers (JStr ''!s:x''), Log LogAlreadyKnown],
         Inr ())"
proof -
  have j: "is_join (joins ''@old:x'')"
    by (simp add: is_join_def joins_def)
  have k: "known_elsewhere home (watched_room_ids resolved) (state_key (joins ''@old:x''))
         (Some (room_id room_a))"
    by (simp add: known_elsewhere_def members_of_def eval_defs)
  have n: "notify home cfg resolved room_a (joins ''@old:x'') =
        ([Log (LogNoticedJoin ''RoomA'' ''!a:x''), GetMembers (JStr ''!s:x''), Log LogAlreadyKnown],
         Inr ())"
    by (simp add: eval_defs)
  from known_user_no_side_effect [OF j k, of cfg] j k n show ?thesis by blast
qed


text \<open>
  Claim C2. An event whose new membership is not \<^verbatim>\<open>join\<close>, or is equal to its previous
  membership, makes the handler do nothing at all. An event whose new membership is
  \<^verbatim>\<open>join\<close> and differs from the previous one makes it log the join and run the check of
  \<open>user_already_known\<close>. So an invite or an email occurs only for the latter.
\<close>

theorem notify_iff_join:
  "(\<not> is_join ev \<longrightarrow> notify w c reg rm ev = ([], Inr ())) \<and>
   (is_join ev \<longrightarrow>
      (\<exists>es. fst (notify w c reg rm ev) =
              Log (LogNoticedJoin (display_name rm) (room_id rm)) #
              fst (user_already_known w (watched_room_ids reg) (state_key ev) (Some (room_id rm)))
              @ es)) \<and>
   (is_join ev \<longleftrightarrow> membership ev = ''join'' \<and> prev_membership ev \<noteq> Some (membership ev)) \<and>
   (filter (\<lambda>e. is_invite e \<or> is_mail e) (fst (notify w c reg rm ev)) \<noteq> [] \<longrightarrow> is_join ev)"
proof -
  have a: "\<not> is_join ev \<longrightarrow> notify w c reg rm ev = ([], Inr ())"
    by (simp add: notify_def)
  have b: "is_join ev \<longrightarrow>
      (\<exists>es. fst (notify w c reg rm ev) =
              Log (LogNoticedJoin (display_name rm) (room_id rm)) #
              fst (user_already_known w (watched_room_ids reg) (state_key ev) (Some (room_id rm)))
              @ es)"
    by (auto simp: notify_def split: prod.splits sum.splits)
  have c: "is_join ev \<longleftrightarrow> membership ev = ''join'' \<and> prev_membership ev \<noteq> Some (membership ev)"
    by (auto simp: is_join_def)
  from a have d: "filter (\<lambda>e. is_invite e \<or> is_mail e) (fst (notify w c reg rm ev)) \<noteq> [] \<longrightarrow> is_join ev"
    by (cases "is_join ev") simp_all
  from a b c d show ?thesis by blast
qed

theorem notify_iff_join_witness:
  "\<not> is_join (leaves ''@old:x'')
   \<and> notify home cfg resolved the_space (leaves ''@old:x'') = ([], Inr ())
   \<and> \<not> is_join (renames ''@new:x'')
   \<and> notify home cfg resolved the_space (renames ''@new:x'') = ([], Inr ())
   \<and> is_join (joins ''@new:x'')
   \<and> fst (user_already_known home (watched_room_ids resolved) ''@new:x'' (Some ''!s:x''))
       = [GetMembers (JStr ''!a:x'')]
   \<and> fst (notify home cfg resolved the_space (joins ''@new:x'')) =
       [Log (LogNoticedJoin ''Space'' ''!s:x''), GetMembers (JStr ''!a:x''),
        PostInvite (JStr ''!b:x'') ''@new:x'', PostInvite (JStr ''!c:x'') ''@new:x'',
        Log (LogNewMember ''Someone'' ''@new:x'' ''space'' ''Space''),
        SendMail (compose cfg ''Someone'' ''space'' the_space (joins ''@new:x'')),
        Log LogEmailSent]"
proof -
  have l: "\<not> is_join (leaves ''@old:x'')" and r: "\<not> is_join (renames ''@new:x'')"
    and j: "is_join (joins ''@new:x'')"
    by (simp_all add: is_join_def leaves_def renames_def joins_def)
  have u: "fst (user_already_known home (watched_room_ids resolved) ''@new:x'' (Some ''!s:x''))
       = [GetMembers (JStr ''!a:x'')]"
    by (simp add: eval_defs)
  have n: "fst (notify home cfg resolved the_space (joins ''@new:x'')) =
       [Log (LogNoticedJoin ''Space'' ''!s:x''), GetMembers (JStr ''!a:x''),
        PostInvite (JStr ''!b:x'') ''@new:x'', PostInvite (JStr ''!c:x'') ''@new:x'',
        Log (LogNewMember ''Someone'' ''@new:x'' ''space'' ''Space''),
        SendMail (compose cfg ''Someone'' ''space'' the_space (joins ''@new:x'')),
        Log LogEmailSent]"
    by (simp add: eval_defs)
  from notify_iff_join [of "leaves ''@old:x''" home cfg resolved the_space]
       notify_iff_join [of "renames ''@new:x''" home cfg resolved the_space]
       l r j u n
  show ?thesis by blast
qed

text \<open>
  Claim C10. While no watched room id is resolved, \<open>user_already_known\<close> returns false for
  every user and every excluded room without asking the homeserver, and the handler treats
  every join as one of a new member: it goes on to the invites and the email.
\<close>

theorem empty_watch_set_unknown:
  assumes "watched_room_ids reg = []"
  shows "user_already_known w (watched_room_ids reg) u x = ([], Inr False) \<and>
         (is_join ev \<longrightarrow>
            notify w c reg rm ev =
              (Log (LogNoticedJoin (display_name rm) (room_id rm)) # fst (new_member w c reg rm ev),
               snd (new_member w c reg rm ev)))"
  using assms by (simp add: notify_def split: prod.splits)

theorem empty_watch_set_unknown_witness:
  "watched_room_ids initial_registry = []
   \<and> user_already_known home (watched_room_ids initial_registry) ''@old:x'' (Some ''!a:x'')
       = ([], Inr False)
   \<and> is_join (joins ''@old:x'')
   \<and> notify home cfg initial_registry room_a (joins ''@old:x'') =
       (Log (LogNoticedJoin ''RoomA'' ''!a:x'') #
          fst (new_member home cfg initial_registry room_a (joins ''@old:x'')),
        snd (new_member home cfg initial_registry room_a (joins ''@old:x'')))
   \<and> new_member home cfg initial_registry room_a (joins ''@old:x'') =
       ([Log (LogNewMember ''Someone'' ''@old:x'' ''room'' ''RoomA''),
         SendMail (compose cfg ''Someone'' ''room'' room_a (joins ''@old:x'')),
         Log LogEmailSent], Inr ())"
proof -
  have e: "watched_room_ids initial_registry = []"
    by (simp add: initial_registry_def)
  have j: "is_join (joins ''@old:x'')"
    by (simp add: is_join_def joins_def)
  have n: "new_member home cfg initial_registry room_a (joins ''@old:x'') =
       ([Log (LogNewMember ''Someone'' ''@old:x'' ''room'' ''RoomA''),
         SendMail (compose cfg ''Someone'' ''room'' room_a (joins ''@old:x'')),
         Log LogEmailSent], Inr ())"
    by (simp add: eval_defs)
  from empty_watch_set_unknown [OF e, of home "''@old:x''" "Some ''!a:x''" "joins ''@old:x''" cfg room_a]
       e j n
  show ?thesis by (simp add: room_a_def)
qed

section \<open>The invites\<close>

lemma send_invites_trace:
  "fst (send_invites w ts u) =
     map (\<lambda>t. PostInvite t u) (through_first (\<lambda>t. raises (invite_post w t u)) ts)"
  by (induction ts) (auto simp: raises_def split: sum.splits prod.splits)

lemma send_invites_result:
  "snd (send_invites w ts u) = Inr () \<longleftrightarrow> list_all (\<lambda>t. \<not> raises (invite_post w t u)) ts"
  by (induction ts) (auto simp: raises_def split: sum.splits prod.splits)

text \<open>
  Claim C7 as it is stated fails: with the targets \<^verbatim>\<open>!b:x\<close> and \<^verbatim>\<open>!c:x\<close> and a homeserver
  that cannot be reached for the invite to \<^verbatim>\<open>!b:x\<close>, the handler raises after the first
  request and \<^verbatim>\<open>!c:x\<close> gets no attempt.
\<close>

theorem invite_failure_aborts_counterexample:
  "is_join (joins ''@new:x'')
   \<and> to_invite_ids resolved = [JStr ''!b:x'', JStr ''!c:x'']
   \<and> invite_post unreachable (JStr ''!b:x'') ''@new:x'' = Inl ConnectionError
   \<and> notify unreachable cfg resolved the_space (joins ''@new:x'') =
       ([Log (LogNoticedJoin ''Space'' ''!s:x''), GetMembers (JStr ''!a:x''),
         PostInvite (JStr ''!b:x'') ''@new:x''], Inl ConnectionError)
   \<and> PostInvite (JStr ''!c:x'') ''@new:x''
        \<notin> set (fst (notify unreachable cfg resolved the_space (joins ''@new:x'')))"
  by (simp add: eval_defs)


lemma user_already_known_no_invite:
  "e \<in> set (fst (user_already_known w ids u x)) \<Longrightarrow> \<not> is_invite e \<and> \<not> is_mail e"
  using user_already_known_effects [of e w ids u x] by (cases e) simp_all


lemma invite_phase_invites:
  "e \<in> set (fst (invite_phase w reg rm ev)) \<Longrightarrow>
     str_eq (room_id rm) (space_id reg) \<and> (\<exists>t\<in>set (to_invite_ids reg). e = PostInvite t (state_key ev))"
proof -
  assume a: "e \<in> set (fst (invite_phase w reg rm ev))"
  then have sp: "str_eq (room_id rm) (space_id reg)"
    by (auto simp: invite_phase_def split: if_splits)
  with a have "e \<in> set (fst (send_invites w (to_invite_ids reg) (state_key ev)))"
    by (auto simp: invite_phase_def split: prod.splits sum.splits)
  then have "\<exists>t\<in>set (to_invite_ids reg). e = PostInvite t (state_key ev)"
    by (auto simp: send_invites_trace dest: through_first_set)
  with sp show ?thesis by simp
qed


lemma notify_new_member:
  assumes "e \<in> set (fst (notify w c reg rm ev))" and "is_invite e \<or> is_mail e"
  shows "is_join ev \<and>
         snd (user_already_known w (watched_room_ids reg) (state_key ev) (Some (room_id rm))) = Inr False \<and>
         e \<in> set (fst (new_member w c reg rm ev))"
proof -
  obtain es res where uak:
    "user_already_known w (watched_room_ids reg) (state_key ev) (Some (room_id rm)) = (es, res)"
    by (cases "user_already_known w (watched_room_ids reg) (state_key ev) (Some (room_id rm))")
  from user_already_known_no_invite [of _ w "watched_room_ids reg" "state_key ev" "Some (room_id rm)"] uak
  have es: "\<And>e. e \<in> set es \<Longrightarrow> \<not> is_invite e \<and> \<not> is_mail e" by simp
  from assms have j: "is_join ev" by (auto simp: notify_def split: if_splits)
  show ?thesis
  proof (cases res)
    case (Inl x)
    with assms j uak es show ?thesis by (auto simp: notify_def)
  next
    case (Inr known)
    with assms j uak es show ?thesis
      by (cases known) (auto simp: notify_def split: prod.splits)
  qed
qed

lemma send_invites_raise:
  "snd (send_invites w ts u) = Inl e \<longleftrightarrow>
     through_first (\<lambda>t. raises (invite_post w t u)) ts \<noteq> [] \<and>
     invite_post w (last (through_first (\<lambda>t. raises (invite_post w t u)) ts)) u = Inl e"
proof (induction ts)
  case Nil
  show ?case by simp
next
  case (Cons t rest)
  show ?case
  proof (cases "invite_post w t u")
    case (Inl e')
    then show ?thesis by (simp add: raises_def)
  next
    case (Inr r)
    obtain es res where rest: "send_invites w rest u = (es, res)"
      by (cases "send_invites w rest u")
    show ?thesis
    proof (cases rest)
      case Nil
      with Inr show ?thesis by (simp add: raises_def)
    next
      case (Cons t' rest')
      then have "through_first (\<lambda>t. raises (invite_post w t u)) rest \<noteq> []"
        by (simp add: through_first_Nil)
      with Inr rest Cons.IH show ?thesis by (simp add: raises_def)
    qed
  qed
qed

lemma email_phase_returns: "snd (email_phase w c rt rm ev) = Inr ()"
  by (simp add: email_phase_def split: prod.splits sum.splits)

lemma notify_new_space_member:
  assumes "is_join ev" and "str_eq (room_id rm) (space_id reg)"
    and "user_already_known w (watched_room_ids reg) (state_key ev) (Some (room_id rm)) = (es1, Inr False)"
  shows "(snd (send_invites w (to_invite_ids reg) (state_key ev)) = Inl e \<longrightarrow>
            notify w c reg rm ev =
              (Log (LogNoticedJoin (display_name rm) (room_id rm)) # es1 @
                 fst (send_invites w (to_invite_ids reg) (state_key ev)), Inl e)) \<and>
         (snd (send_invites w (to_invite_ids reg) (state_key ev)) = Inr () \<longrightarrow>
            notify w c reg rm ev =
              (Log (LogNoticedJoin (display_name rm) (room_id rm)) # es1 @
                 fst (send_invites w (to_invite_ids reg) (state_key ev)) @
                 fst (email_phase w c ''space'' rm ev), Inr ()))"
proof -
  obtain es2 res2 where si: "send_invites w (to_invite_ids reg) (state_key ev) = (es2, res2)"
    by (cases "send_invites w (to_invite_ids reg) (state_key ev)")
  obtain es3 res3 where ep: "email_phase w c ''space'' rm ev = (es3, res3)"
    by (cases "email_phase w c ''space'' rm ev")
  from email_phase_returns [of w c "''space''" rm ev] ep have r3: "res3 = Inr ()" by simp
  show ?thesis
  proof (cases res2)
    case (Inl e')
    with assms si show ?thesis
      by (simp add: notify_def new_member_def invite_phase_def)
  next
    case (Inr v)
    with assms si ep r3 show ?thesis
      by (simp add: notify_def new_member_def invite_phase_def)
  qed
qed

text \<open>
  Claim C7, as amended. The loop posts one invite per target, in order, up to and including
  the first target whose request raises; it returns exactly when no request raises and
  otherwise raises the exception of that request. So a request that the homeserver answers,
  with whatever status, never keeps the later targets from their attempt. For a join into the
  space by a user who is not known, an exception of the loop is the exception of the handler,
  which does nothing after the request that raised; and when the loop returns, the handler
  goes on to the email and returns.
\<close>

theorem invite_loop_until_raise:
  "fst (send_invites w ts u) =
     map (\<lambda>t. PostInvite t u) (through_first (\<lambda>t. raises (invite_post w t u)) ts) \<and>
   (snd (send_invites w ts u) = Inr () \<longleftrightarrow> list_all (\<lambda>t. \<not> raises (invite_post w t u)) ts) \<and>
   (snd (send_invites w ts u) = Inl e \<longleftrightarrow>
      through_first (\<lambda>t. raises (invite_post w t u)) ts \<noteq> [] \<and>
      invite_post w (last (through_first (\<lambda>t. raises (invite_post w t u)) ts)) u = Inl e) \<and>
   (list_all (\<lambda>t. \<not> raises (invite_post w t u)) ts \<longrightarrow>
      send_invites w ts u = (map (\<lambda>t. PostInvite t u) ts, Inr ())) \<and>
   (is_join ev \<and> str_eq (room_id rm) (space_id reg) \<and>
    user_already_known w (watched_room_ids reg) (state_key ev) (Some (room_id rm)) = (es1, Inr False)
    \<longrightarrow>
      (snd (send_invites w (to_invite_ids reg) (state_key ev)) = Inl e \<longrightarrow>
         notify w c reg rm ev =
           (Log (LogNoticedJoin (display_name rm) (room_id rm)) # es1 @
              fst (send_invites w (to_invite_ids reg) (state_key ev)), Inl e)) \<and>
      (snd (send_invites w (to_invite_ids reg) (state_key ev)) = Inr () \<longrightarrow>
         notify w c reg rm ev =
           (Log (LogNoticedJoin (display_name rm) (room_id rm)) # es1 @
              fst (send_invites w (to_invite_ids reg) (state_key ev)) @
              fst (email_phase w c ''space'' rm ev), Inr ())))"
proof -
  have all: "send_invites w ts u = (map (\<lambda>t. PostInvite t u) ts, Inr ())"
    if "list_all (\<lambda>t. \<not> raises (invite_post w t u)) ts"
    using that send_invites_trace [of w ts u] send_invites_result [of w ts u]
    by (cases "send_invites w ts u") (simp add: through_first_none)
  from send_invites_trace [of w ts u] send_invites_result [of w ts u]
       send_invites_raise [of w ts u e] all
       notify_new_space_member [of ev rm reg w es1 e c]
  show ?thesis by blast
qed

theorem invite_loop_until_raise_witness:
  "list_all (\<lambda>t. \<not> raises (invite_post refusing t ''@new:x'')) (to_invite_ids resolved)
   \<and> send_invites refusing (to_invite_ids resolved) ''@new:x'' =
       ([PostInvite (JStr ''!b:x'') ''@new:x'', PostInvite (JStr ''!c:x'') ''@new:x''], Inr ())
   \<and> is_join (joins ''@new:x'')
   \<and> str_eq (room_id the_space) (space_id resolved)
   \<and> user_already_known refusing (watched_room_ids resolved) (state_key (joins ''@new:x''))
        (Some (room_id the_space)) = ([GetMembers (JStr ''!a:x'')], Inr False)
   \<and> notify refusing cfg resolved the_space (joins ''@new:x'') =
        (Log (LogNoticedJoin (display_name the_space) (room_id the_space)) #
           [GetMembers (JStr ''!a:x'')] @
           fst (send_invites refusing (to_invite_ids resolved) (state_key (joins ''@new:x''))) @
           fst (email_phase refusing cfg ''space'' the_space (joins ''@new:x'')), Inr ())
   \<and> snd (send_invites unreachable (to_invite_ids resolved) (state_key (joins ''@new:x'')))
        = Inl ConnectionError
   \<and> user_already_known unreachable (watched_room_ids resolved) (state_key (joins ''@new:x''))
        (Some (room_id the_space)) = ([GetMembers (JStr ''!a:x'')], Inr False)
   \<and> notify unreachable cfg resolved the_space (joins ''@new:x'') =
        (Log (LogNoticedJoin (display_name the_space) (room_id the_space)) #
           [GetMembers (JStr ''!a:x'')] @
           fst (send_invites unreachable (to_invite_ids resolved) (state_key (joins ''@new:x''))),
         Inl ConnectionError)"
proof -
  have h: "list_all (\<lambda>t. \<not> raises (invite_post refusing t ''@new:x'')) (to_invite_ids resolved)"
    by (simp add: raises_def refusing_def resolved_def)
  have u: "state_key (joins ''@new:x'') = ''@new:x''" by (simp add: joins_def)
  have j: "is_join (joins ''@new:x'')"
    by (simp add: is_join_def joins_def)
  have s: "str_eq (room_id the_space) (space_id resolved)"
    by (simp add: str_eq_def the_space_def resolved_def)
  have k1: "user_already_known refusing (watched_room_ids resolved) (state_key (joins ''@new:x''))
        (Some (room_id the_space)) = ([GetMembers (JStr ''!a:x'')], Inr False)"
    by (simp add: eval_defs)
  have k2: "user_already_known unreachable (watched_room_ids resolved) (state_key (joins ''@new:x''))
        (Some (room_id the_space)) = ([GetMembers (JStr ''!a:x'')], Inr False)"
    by (simp add: eval_defs)
  have r2: "snd (send_invites unreachable (to_invite_ids resolved) (state_key (joins ''@new:x'')))
        = Inl ConnectionError"
    by (simp add: eval_defs)
  note a = invite_loop_until_raise [of refusing "to_invite_ids resolved" "''@new:x''" ConnectionError
             "joins ''@new:x''" the_space resolved "[GetMembers (JStr ''!a:x'')]" cfg]
  note b = invite_loop_until_raise [of unreachable "to_invite_ids resolved" "''@new:x''" ConnectionError
             "joins ''@new:x''" the_space resolved "[GetMembers (JStr ''!a:x'')]" cfg]
  from a h have si: "send_invites refusing (to_invite_ids resolved) ''@new:x'' =
       (map (\<lambda>t. PostInvite t ''@new:x'') (to_invite_ids resolved), Inr ())" by blast
  then have si': "send_invites refusing (to_invite_ids resolved) ''@new:x'' =
       ([PostInvite (JStr ''!b:x'') ''@new:x'', PostInvite (JStr ''!c:x'') ''@new:x''], Inr ())"
    by (simp add: resolved_def)
  from si have "snd (send_invites refusing (to_invite_ids resolved) (state_key (joins ''@new:x''))) = Inr ()"
    by (simp add: u)
  with a j s k1 have n1: "notify refusing cfg resolved the_space (joins ''@new:x'') =
        (Log (LogNoticedJoin (display_name the_space) (room_id the_space)) #
           [GetMembers (JStr ''!a:x'')] @
           fst (send_invites refusing (to_invite_ids resolved) (state_key (joins ''@new:x''))) @
           fst (email_phase refusing cfg ''space'' the_space (joins ''@new:x'')), Inr ())"
    by blast
  from b j s k2 r2 have n2: "notify unreachable cfg resolved the_space (joins ''@new:x'') =
        (Log (LogNoticedJoin (display_name the_space) (room_id the_space)) #
           [GetMembers (JStr ''!a:x'')] @
           fst (send_invites unreachable (to_invite_ids resolved) (state_key (joins ''@new:x''))),
         Inl ConnectionError)"
    by blast
  from h si' j s k1 n1 r2 k2 n2 show ?thesis by blast
qed




section \<open>The email\<close>

lemma watched_rooms_names:
  "n \<in> set (watched_rooms c) \<longleftrightarrow> n = space c \<or> (\<exists>ws. watch c = Some ws \<and> n \<in> set ws)"
  by (auto simp: watched_rooms_def split: option.splits)

lemma invite_phase_no_mail:
  "e \<in> set (fst (invite_phase w reg rm ev)) \<Longrightarrow> \<not> is_mail e"
  by (auto dest: invite_phase_invites)

lemma email_phase_mail:
  "e \<in> set (fst (email_phase w c rt rm ev)) \<Longrightarrow> display_name rm \<in> set (watched_rooms c)"
  by (auto simp: email_phase_def split: if_splits)

lemma new_member_mail:
  assumes "e \<in> set (fst (new_member w c reg rm ev))" and "is_mail e"
  shows "display_name rm \<in> set (watched_rooms c)"
proof -
  obtain es res where ip: "invite_phase w reg rm ev = (es, res)"
    by (cases "invite_phase w reg rm ev")
  from invite_phase_no_mail [of e w reg rm ev] ip assms(2) have nes: "e \<notin> set es" by auto
  show ?thesis
  proof (cases res)
    case (Inl x)
    with assms ip nes show ?thesis by (simp add: new_member_def)
  next
    case (Inr rt)
    obtain es2 res2 where ep: "email_phase w c rt rm ev = (es2, res2)"
      by (cases "email_phase w c rt rm ev")
    with assms ip Inr nes have "e \<in> set (fst (email_phase w c rt rm ev))"
      by (simp add: new_member_def)
    then show ?thesis by (rule email_phase_mail)
  qed
qed

lemma new_member_ignores_watched_ids:
  "new_member w c (reg\<lparr>watched_room_ids := ids\<rparr>) rm ev = new_member w c reg rm ev"
  by (simp add: new_member_def invite_phase_def)

text \<open>
  Claim C5. Whenever the handler hands an email to the mail server, the event is a join,
  the user is reported as not known, and the display name of the room at that time is in the
  list of watched names, that is the space name or one of the configured watch names. The
  check reads the name: what a new member causes does not depend on the resolved watched
  room ids.
\<close>

theorem email_only_for_watched_name:
  "(SendMail m \<in> set (fst (notify w c reg rm ev)) \<longrightarrow>
      is_join ev \<and>
      snd (user_already_known w (watched_room_ids reg) (state_key ev) (Some (room_id rm))) = Inr False \<and>
      display_name rm \<in> set (watched_rooms c) \<and>
      (display_name rm = space c \<or> (\<exists>ws. watch c = Some ws \<and> display_name rm \<in> set ws))) \<and>
   new_member w c (reg\<lparr>watched_room_ids := ids\<rparr>) rm ev = new_member w c reg rm ev"
proof (rule conjI)
  show "SendMail m \<in> set (fst (notify w c reg rm ev)) \<longrightarrow>
      is_join ev \<and>
      snd (user_already_known w (watched_room_ids reg) (state_key ev) (Some (room_id rm))) = Inr False \<and>
      display_name rm \<in> set (watched_rooms c) \<and>
      (display_name rm = space c \<or> (\<exists>ws. watch c = Some ws \<and> display_name rm \<in> set ws))"
  proof
    assume a: "SendMail m \<in> set (fst (notify w c reg rm ev))"
    from notify_new_member [OF a] have j: "is_join ev"
      and k: "snd (user_already_known w (watched_room_ids reg) (state_key ev) (Some (room_id rm))) = Inr False"
      and n: "SendMail m \<in> set (fst (new_member w c reg rm ev))"
      by simp_all
    from new_member_mail [OF n] have d: "display_name rm \<in> set (watched_rooms c)" by simp
    with watched_rooms_names [of "display_name rm" c] j k
    show "is_join ev \<and>
      snd (user_already_known w (watched_room_ids reg) (state_key ev) (Some (room_id rm))) = Inr False \<and>
      display_name rm \<in> set (watched_rooms c) \<and>
      (display_name rm = space c \<or> (\<exists>ws. watch c = Some ws \<and> display_name rm \<in> set ws))"
      by blast
  qed
next
  show "new_member w c (reg\<lparr>watched_room_ids := ids\<rparr>) rm ev = new_member w c reg rm ev"
    by (rule new_member_ignores_watched_ids)
qed

theorem email_only_for_watched_name_witness:
  "notify home cfg resolved other_a (joins ''@new:x'') =
     ([Log (LogNoticedJoin ''RoomA'' ''!z:x''),
       GetMembers (JStr ''!s:x''), GetMembers (JStr ''!a:x''),
       Log (LogNewMember ''Someone'' ''@new:x'' ''room'' ''RoomA''),
       SendMail (compose cfg ''Someone'' ''room'' other_a (joins ''@new:x'')),
       Log LogEmailSent], Inr ())
   \<and> is_join (joins ''@new:x'')
   \<and> display_name other_a \<in> set (watched_rooms cfg)
   \<and> watch cfg = Some [''RoomA'']
   \<and> JStr (room_id other_a) \<notin> set (watched_room_ids resolved)
   \<and> JStr (room_id renamed_a) \<in> set (watched_room_ids resolved)
   \<and> display_name renamed_a \<notin> set (watched_rooms cfg)
   \<and> notify home cfg resolved renamed_a (joins ''@new:x'') =
       ([Log (LogNoticedJoin ''Lounge'' ''!a:x''), GetMembers (JStr ''!s:x'')], Inr ())"
proof -
  have n: "notify home cfg resolved other_a (joins ''@new:x'') =
     ([Log (LogNoticedJoin ''RoomA'' ''!z:x''),
       GetMembers (JStr ''!s:x''), GetMembers (JStr ''!a:x''),
       Log (LogNewMember ''Someone'' ''@new:x'' ''room'' ''RoomA''),
       SendMail (compose cfg ''Someone'' ''room'' other_a (joins ''@new:x'')),
       Log LogEmailSent], Inr ())"
    by (simp add: eval_defs)
  then have s: "SendMail (compose cfg ''Someone'' ''room'' other_a (joins ''@new:x''))
      \<in> set (fst (notify home cfg resolved other_a (joins ''@new:x'')))"
    by simp
  have w: "watch cfg = Some [''RoomA'']" by (simp add: cfg_def)
  have i: "JStr (room_id other_a) \<notin> set (watched_room_ids resolved)"
      "JStr (room_id renamed_a) \<in> set (watched_room_ids resolved)"
      "display_name renamed_a \<notin> set (watched_rooms cfg)"
    by (simp_all add: eval_defs)
  have r: "notify home cfg resolved renamed_a (joins ''@new:x'') =
       ([Log (LogNoticedJoin ''Lounge'' ''!a:x''), GetMembers (JStr ''!s:x'')], Inr ())"
    by (simp add: eval_defs)
  from email_only_for_watched_name
         [of "compose cfg ''Someone'' ''room'' other_a (joins ''@new:x'')" home cfg resolved other_a
             "joins ''@new:x''"] s n w i r
  show ?thesis by blast
qed

text \<open>
  Claim C8. When the handler reaches the email for a new member and composing or sending it
  raises an exception, the handler logs the exception as its last act and returns, and the
  listener goes on with the events that follow.
\<close>

theorem email_failure_is_caught:
  assumes "is_join ev"
    and "user_already_known w (watched_room_ids reg) (state_key ev) (Some (room_id rm)) = (es1, Inr False)"
    and "invite_phase w reg rm ev = (es2, Inr room_type)"
    and "display_name rm \<in> set (watched_rooms c)"
    and "try_email w c room_type rm ev = (es3, Inl e)"
  shows "notify w c reg rm ev =
           (Log (LogNoticedJoin (display_name rm) (room_id rm)) # es1 @ es2 @ es3 @
              [Log (LogEmailException e)], Inr ()) \<and>
         run c reg ((w, rm, ev) # rest) =
           (fst (notify w c reg rm ev) @ fst (run c reg rest), snd (run c reg rest))"
proof -
  from assms(4,5) have ep: "email_phase w c room_type rm ev = (es3 @ [Log (LogEmailException e)], Inr ())"
    by (simp add: email_phase_def)
  with assms(3) have nm: "new_member w c reg rm ev = (es2 @ es3 @ [Log (LogEmailException e)], Inr ())"
    by (simp add: new_member_def)
  with assms(1,2) have n: "notify w c reg rm ev =
           (Log (LogNoticedJoin (display_name rm) (room_id rm)) # es1 @ es2 @ es3 @
              [Log (LogEmailException e)], Inr ())"
    by (simp add: notify_def)
  then have "run c reg ((w, rm, ev) # rest) =
           (fst (notify w c reg rm ev) @ fst (run c reg rest), snd (run c reg rest))"
    by (simp split: prod.splits)
  with n show ?thesis by simp
qed

theorem email_failure_is_caught_witness:
  "is_join (joins ''@new:x'')
   \<and> user_already_known mail_down (watched_room_ids resolved) (state_key (joins ''@new:x''))
        (Some (room_id the_space)) = ([GetMembers (JStr ''!a:x'')], Inr False)
   \<and> invite_phase mail_down resolved the_space (joins ''@new:x'') =
        ([PostInvite (JStr ''!b:x'') ''@new:x'', PostInvite (JStr ''!c:x'') ''@new:x''], Inr ''space'')
   \<and> display_name the_space \<in> set (watched_rooms cfg)
   \<and> try_email mail_down cfg ''space'' the_space (joins ''@new:x'') =
        ([Log (LogNewMember ''Someone'' ''@new:x'' ''space'' ''Space''),
          SendMail (compose cfg ''Someone'' ''space'' the_space (joins ''@new:x''))],
         Inl SMTPException)
   \<and> notify mail_down cfg resolved the_space (joins ''@new:x'') =
        ([Log (LogNoticedJoin ''Space'' ''!s:x''), GetMembers (JStr ''!a:x''),
          PostInvite (JStr ''!b:x'') ''@new:x'', PostInvite (JStr ''!c:x'') ''@new:x'',
          Log (LogNewMember ''Someone'' ''@new:x'' ''space'' ''Space''),
          SendMail (compose cfg ''Someone'' ''space'' the_space (joins ''@new:x'')),
          Log (LogEmailException SMTPException)], Inr ())
   \<and> run cfg resolved [(mail_down, the_space, joins ''@new:x''), (home, room_a, joins ''@old:x'')] =
        ([Log (LogNoticedJoin ''Space'' ''!s:x''), GetMembers (JStr ''!a:x''),
          PostInvite (JStr ''!b:x'') ''@new:x'', PostInvite (JStr ''!c:x'') ''@new:x'',
          Log (LogNewMember ''Someone'' ''@new:x'' ''space'' ''Space''),
          SendMail (compose cfg ''Someone'' ''space'' the_space (joins ''@new:x'')),
          Log (LogEmailException SMTPException),
          Log (LogNoticedJoin ''RoomA'' ''!a:x''), GetMembers (JStr ''!s:x''),
          Log LogAlreadyKnown], Inr ())"
proof -
  have j: "is_join (joins ''@new:x'')"
    by (simp add: is_join_def joins_def)
  have k: "user_already_known mail_down (watched_room_ids resolved) (state_key (joins ''@new:x''))
        (Some (room_id the_space)) = ([GetMembers (JStr ''!a:x'')], Inr False)"
    by (simp add: eval_defs)
  have i: "invite_phase mail_down resolved the_space (joins ''@new:x'') =
        ([PostInvite (JStr ''!b:x'') ''@new:x'', PostInvite (JStr ''!c:x'') ''@new:x''], Inr ''space'')"
    by (simp add: eval_defs)
  have d: "display_name the_space \<in> set (watched_rooms cfg)"
    by (simp add: eval_defs)
  have t: "try_email mail_down cfg ''space'' the_space (joins ''@new:x'') =
        ([Log (LogNewMember ''Someone'' ''@new:x'' ''space'' ''Space''),
          SendMail (compose cfg ''Someone'' ''space'' the_space (joins ''@new:x''))],
         Inl SMTPException)"
    by (simp add: eval_defs)
  have r: "run cfg resolved [(home, room_a, joins ''@old:x'')] =
       ([Log (LogNoticedJoin ''RoomA'' ''!a:x''), GetMembers (JStr ''!s:x''),
          Log LogAlreadyKnown], Inr ())"
    by (simp add: eval_defs)
  note caught = email_failure_is_caught [OF j k i d t, of "[(home, room_a, joins ''@old:x'')]"]
  have sp: "display_name the_space = ''Space''" "room_id the_space = ''!s:x''"
    by (simp_all add: the_space_def)
  from caught [THEN conjunct1]
  have n: "notify mail_down cfg resolved the_space (joins ''@new:x'') =
        ([Log (LogNoticedJoin ''Space'' ''!s:x''), GetMembers (JStr ''!a:x''),
          PostInvite (JStr ''!b:x'') ''@new:x'', PostInvite (JStr ''!c:x'') ''@new:x'',
          Log (LogNewMember ''Someone'' ''@new:x'' ''space'' ''Space''),
          SendMail (compose cfg ''Someone'' ''space'' the_space (joins ''@new:x'')),
          Log (LogEmailException SMTPException)], Inr ())"
    unfolding sp by (simp only: append.simps)
  have rr: "run cfg resolved [(mail_down, the_space, joins ''@new:x''), (home, room_a, joins ''@old:x'')] =
        ([Log (LogNoticedJoin ''Space'' ''!s:x''), GetMembers (JStr ''!a:x''),
          PostInvite (JStr ''!b:x'') ''@new:x'', PostInvite (JStr ''!c:x'') ''@new:x'',
          Log (LogNewMember ''Someone'' ''@new:x'' ''space'' ''Space''),
          SendMail (compose cfg ''Someone'' ''space'' the_space (joins ''@new:x'')),
          Log (LogEmailException SMTPException),
          Log (LogNoticedJoin ''RoomA'' ''!a:x''), GetMembers (JStr ''!s:x''),
          Log LogAlreadyKnown], Inr ())"
    using caught [THEN conjunct2] unfolding n r by (simp only: fst_conv snd_conv append.simps)
  from j k i d t n rr show ?thesis by blast
qed

section \<open>Resolving the registry\<close>











lemma named_in_space: "named_in w [space c] rid \<longleftrightarrow> (\<exists>n. room_name w rid = Some n \<and> str_eq (space c) n)"
  by (simp add: named_in_def in_strs_def split: option.splits)









end
